theory Spec2Isabelle
  imports Main "HOL-Library.AList"
begin

section \<open>JavaScript values and objects\<close>

text \<open>
  The server (\<^verbatim>\<open>src/server.js\<close>) is an Express application whose whole state is two JSON
  files, \<^verbatim>\<open>winners.json\<close> and \<^verbatim>\<open>logs.json\<close>.  Every handler is modelled as a function from
  the file system to a response and a new file system.

  Display texts of the catalog are Korean; a JavaScript string is a sequence of UTF-16 code
  units, and that is how they are written here.  Identifiers and timestamps stay ASCII.
\<close>

type_synonym utf16 = "nat list"

text \<open>What a client may put into a body field that the server only stores and echoes.\<close>

datatype jsval = JUndefined | JNull | JStr string

text \<open>
  A plain object is an ordered list of own properties with distinct keys.  Reading
  \<^verbatim>\<open>obj[k]\<close> looks at the own properties first and then at \<^verbatim>\<open>Object.prototype\<close>, which every
  object literal and every object made by \<^verbatim>\<open>JSON.parse\<close> inherits from.  The members of
  \<^verbatim>\<open>Object.prototype\<close> are functions (and, for \<^verbatim>\<open>__proto__\<close>, the prototype object itself):
  all of them are truthy, and none has a property \<^verbatim>\<open>accessTime\<close>.  An inherited result
  keeps the key it was found under, which says which built-in it is.
\<close>

datatype 'a lookup = Own 'a | Inherited string | Missing

definition Object_prototype :: "string list" where
  "Object_prototype =
     [''constructor'', ''__defineGetter__'', ''__defineSetter__'', ''hasOwnProperty'',
      ''__lookupGetter__'', ''__lookupSetter__'', ''isPrototypeOf'', ''propertyIsEnumerable'',
      ''toString'', ''valueOf'', ''__proto__'', ''toLocaleString'']"

definition js_get :: "(string \<times> 'a) list \<Rightarrow> string \<Rightarrow> 'a lookup" where
  "js_get obj k =
     (case map_of obj k of
        Some v \<Rightarrow> Own v
      | None \<Rightarrow> if k \<in> set Object_prototype then Inherited k else Missing)"

fun truthy :: "'a lookup \<Rightarrow> bool" where
  "truthy (Own v) = True"
| "truthy (Inherited k) = True"
| "truthy Missing = False"

text \<open>\<^verbatim>\<open>a || b\<close> on body values: the empty string, null and undefined are falsy.\<close>

fun js_or :: "jsval \<Rightarrow> jsval \<Rightarrow> jsval" where
  "js_or (JStr s) b = (if s = [] then b else JStr s)"
| "js_or JUndefined b = b"
| "js_or JNull b = b"

section \<open>The location catalog\<close>

record location =
  name :: utf16
  prize :: utf16
  emoji :: utf16

definition LOCATIONS :: "(string \<times> location) list" where
  "LOCATIONS =
     [(''gangnam'',
        \<lparr>name = [44053, 45224, 50669],
         prize = [49828, 53440, 48261, 49828, 32, 50500, 47700, 47532, 52852, 45432],
         emoji = [9749]\<rparr>),
      (''hongdae'',
        \<lparr>name = [54861, 45824, 51077, 44396, 50669],
         prize = [53804, 50040, 54540, 47112, 51060, 49828, 32, 52992, 51060, 53356],
         emoji = [55356, 57200]\<rparr>),
      (''myeongdong'',
        \<lparr>name = [47749, 46041, 50669],
         prize = [51060, 46356, 50556, 32, 50500, 51060, 49828, 53356, 47548],
         emoji = [55356, 57190]\<rparr>),
      (''itaewon'',
        \<lparr>name = [51060, 53468, 50896, 50669],
         prize = [54624, 47532, 49828, 32, 50896, 46160, 52964, 54588],
         emoji = [9749]\<rparr>),
      (''jamsil'',
        \<lparr>name = [51104, 49892, 50669],
         prize = [47700, 44032, 52964, 54588, 32, 51020, 47308, 49688],
         emoji = [55358, 56676]\<rparr>)]"

text \<open>
  \<^verbatim>\<open>LOCATIONS[locationId].prize\<close>, \<^verbatim>\<open>.emoji\<close>, and the fields that the spread
  \<^verbatim>\<open>...LOCATIONS[locationId]\<close> copies: catalog data for an own key.  A built-in has no
  property \<^verbatim>\<open>prize\<close> or \<^verbatim>\<open>emoji\<close> and no own enumerable property at all, so for an
  inherited key these are undefined, which is \<open>None\<close>.
\<close>

fun catalog_field :: "(location \<Rightarrow> utf16) \<Rightarrow> location lookup \<Rightarrow> utf16 option" where
  "catalog_field f (Own l) = Some (f l)"
| "catalog_field f (Inherited k) = None"
| "catalog_field f Missing = None"

text \<open>
  \<^verbatim>\<open>LOCATIONS[locationId].name\<close> is different: a function has a property \<^verbatim>\<open>name\<close>.  Under
  \<^verbatim>\<open>constructor\<close> sits the function \<^verbatim>\<open>Object\<close>; every other function of
  \<^verbatim>\<open>Object.prototype\<close> is named like its key; \<^verbatim>\<open>__proto__\<close> gives the prototype object,
  which has no \<^verbatim>\<open>name\<close>.
\<close>

definition builtin_name :: "string \<Rightarrow> utf16 option" where
  "builtin_name k =
     (if k = ''__proto__'' then None
      else if k = ''constructor'' then Some (map of_char ''Object'')
      else Some (map of_char k))"

fun name_field :: "location lookup \<Rightarrow> utf16 option" where
  "name_field (Own l) = Some (name l)"
| "name_field (Inherited k) = builtin_name k"
| "name_field Missing = None"

section \<open>Persisted documents\<close>

record access_log =
  id_field :: int
  locationId :: string
  accessTime :: jsval
  ip :: jsval
  userAgent :: jsval
  timestamp :: string

text \<open>
  \<^verbatim>\<open>{...accessLog, winner: true}\<close> copies the six fields before \<^verbatim>\<open>isWinner\<close> is assigned, so
  a winner record carries \<^verbatim>\<open>winner\<close> and no \<^verbatim>\<open>isWinner\<close>; a log entry is the access log
  with \<^verbatim>\<open>isWinner\<close> added.
\<close>

record winner_record = access_log +
  winner :: bool

record log_entry = access_log +
  isWinner :: bool

definition with_winner :: "access_log \<Rightarrow> winner_record" where
  "with_winner a =
     \<lparr>id_field = id_field a, locationId = locationId a, accessTime = accessTime a,
      ip = ip a, userAgent = userAgent a, timestamp = timestamp a, winner = True\<rparr>"

definition with_isWinner :: "access_log \<Rightarrow> bool \<Rightarrow> log_entry" where
  "with_isWinner a b =
     \<lparr>id_field = id_field a, locationId = locationId a, accessTime = accessTime a,
      ip = ip a, userAgent = userAgent a, timestamp = timestamp a, isWinner = b\<rparr>"

type_synonym winners_doc = "(string \<times> winner_record) list"
type_synonym logs_doc = "log_entry list"

text \<open>A file is absent (\<open>None\<close>) until its first successful write.\<close>

record fs =
  winners_file :: "winners_doc option"
  logs_file :: "logs_doc option"

datatype io_error = ENOENT | WriteFailed

definition readFile :: "'a option \<Rightarrow> io_error + 'a" where
  "readFile f = (case f of None \<Rightarrow> Inl ENOENT | Some d \<Rightarrow> Inr d)"

text \<open>
  Whether a write succeeds is decided by the environment, not by the program: the flag
  \<open>ok\<close> is the outcome of this one \<^verbatim>\<open>fs.writeFile\<close>.  A failed write leaves the file as it
  was.
\<close>

definition writeFile :: "bool \<Rightarrow> 'a \<Rightarrow> 'a option \<Rightarrow> (io_error + unit) \<times> 'a option" where
  "writeFile ok d f = (if ok then (Inr (), Some d) else (Inl WriteFailed, f))"

text \<open>\<^verbatim>\<open>loadData\<close>: any failure of the read gives the default value.\<close>

definition loadData :: "'a option \<Rightarrow> 'a \<Rightarrow> 'a" where
  "loadData f defaultValue = (case readFile f of Inr d \<Rightarrow> d | Inl err \<Rightarrow> defaultValue)"

text \<open>
  \<^verbatim>\<open>saveData\<close>: the \<^verbatim>\<open>catch\<close> logs the error to the console and returns normally.  The
  result type keeps the possibility of a thrown error (\<open>Inl\<close>), so that the callers'
  error paths are branches of the model.
\<close>

definition saveData :: "bool \<Rightarrow> 'a \<Rightarrow> 'a option \<Rightarrow> (io_error + unit) \<times> 'a option" where
  "saveData ok d f =
     (case writeFile ok d f of
        (Inr u, f') \<Rightarrow> (Inr (), f')
      | (Inl err, f') \<Rightarrow> (Inr (), f'))"

section \<open>Requests, responses, environment\<close>

record request =
  body_locationId :: string
  body_accessTime :: jsval
  body_userAgent :: jsval
  req_ip :: jsval
  remoteAddress :: jsval

text \<open>The clock readings and write outcomes one run of a handler meets.\<close>

record env =
  now_ms :: int
  now_iso :: string
  winners_write_ok :: bool
  logs_write_ok :: bool

datatype error_body = NoSuchLocation | ResetFailed

text \<open>
  \<open>Json\<close> is \<^verbatim>\<open>res.json(body)\<close> with status 200, \<open>Status\<close> is
  \<^verbatim>\<open>res.status(n).json({error})\<close>, and \<open>Unhandled\<close> is an error thrown out of an \<^verbatim>\<open>async\<close>
  handler that has no \<^verbatim>\<open>try\<close> around it.
\<close>

datatype 'a response = Json 'a | Status nat error_body | Unhandled io_error

record participate_result =
  res_isWinner :: bool
  res_locationName :: "utf16 option"
  res_prize :: "utf16 option"
  res_emoji :: "utf16 option"
  res_accessTime :: jsval
  res_winnerTime :: jsval

record location_view =
  view_name :: "utf16 option"
  view_prize :: "utf16 option"
  view_emoji :: "utf16 option"
  view_locationId :: string
  view_hasWinner :: bool
  view_winnerTime :: jsval

text \<open>\<^verbatim>\<open>winners[locationId].accessTime\<close>.\<close>

fun accessTime_of :: "winner_record lookup \<Rightarrow> jsval" where
  "accessTime_of (Own w) = accessTime w"
| "accessTime_of (Inherited k) = JUndefined"
| "accessTime_of Missing = JUndefined"

definition clientIP :: "request \<Rightarrow> jsval" where
  "clientIP rq = js_or (js_or (req_ip rq) (remoteAddress rq)) (JStr ''127.0.0.1'')"

section \<open>Handlers\<close>

subsection \<open>GET /api/locations/:locationId\<close>

definition get_location :: "string \<Rightarrow> fs \<Rightarrow> location_view response" where
  "get_location lid st =
     (if \<not> truthy (js_get LOCATIONS lid) then Status 404 NoSuchLocation
      else
        let winners = loadData (winners_file st) [];
            hasWinner = truthy (js_get winners lid)
        in Json
             \<lparr>view_name = catalog_field name (js_get LOCATIONS lid),
              view_prize = catalog_field prize (js_get LOCATIONS lid),
              view_emoji = catalog_field emoji (js_get LOCATIONS lid),
              view_locationId = lid,
              view_hasWinner = hasWinner,
              view_winnerTime =
                (if hasWinner then accessTime_of (js_get winners lid) else JNull)\<rparr>)"

subsection \<open>POST /api/participate\<close>

definition new_access_log :: "env \<Rightarrow> request \<Rightarrow> access_log" where
  "new_access_log e rq =
     \<lparr>id_field = now_ms e,
      locationId = body_locationId rq,
      accessTime = body_accessTime rq,
      ip = clientIP rq,
      userAgent = body_userAgent rq,
      timestamp = now_iso e\<rparr>"

text \<open>\<^verbatim>\<open>logs.push(accessLog)\<close> followed by the \<^verbatim>\<open>splice\<close> that keeps the last 1000.\<close>

definition push_log :: "logs_doc \<Rightarrow> log_entry \<Rightarrow> logs_doc" where
  "push_log logs entry =
     (let logs1 = logs @ [entry]
      in if length logs1 > 1000 then drop (length logs1 - 1000) logs1 else logs1)"

definition participate_body ::
    "request \<Rightarrow> bool \<Rightarrow> jsval \<Rightarrow> participate_result" where
  "participate_body rq isW winnerTime =
     \<lparr>res_isWinner = isW,
      res_locationName = name_field (js_get LOCATIONS (body_locationId rq)),
      res_prize = catalog_field prize (js_get LOCATIONS (body_locationId rq)),
      res_emoji = catalog_field emoji (js_get LOCATIONS (body_locationId rq)),
      res_accessTime = body_accessTime rq,
      res_winnerTime = winnerTime\<rparr>"

text \<open>
  Lines 128-146 of the handler: add the entry to the log, write the log, respond.
\<close>

definition log_and_respond ::
    "env \<Rightarrow> request \<Rightarrow> access_log \<Rightarrow> bool \<Rightarrow> jsval \<Rightarrow> logs_doc \<Rightarrow> fs
       \<Rightarrow> participate_result response \<times> fs" where
  "log_and_respond e rq accessLog isW winnerTime logs st =
     (let logs' = push_log logs (with_isWinner accessLog isW)
      in case saveData (logs_write_ok e) logs' (logs_file st) of
           (Inl err, f) \<Rightarrow> (Unhandled err, st\<lparr>logs_file := f\<rparr>)
         | (Inr u, f) \<Rightarrow> (Json (participate_body rq isW winnerTime), st\<lparr>logs_file := f\<rparr>))"

text \<open>The handler, run from its first line to its response with nothing in between.\<close>

definition participate :: "env \<Rightarrow> request \<Rightarrow> fs \<Rightarrow> participate_result response \<times> fs" where
  "participate e rq st =
     (let lid = body_locationId rq in
      if \<not> truthy (js_get LOCATIONS lid) then (Status 400 NoSuchLocation, st)
      else
        let winners = loadData (winners_file st) [];
            logs = loadData (logs_file st) [];
            accessLog = new_access_log e rq
        in if \<not> truthy (js_get winners lid)
           then
             (case saveData (winners_write_ok e)
                     (AList.update lid (with_winner accessLog) winners) (winners_file st) of
                (Inl err, f) \<Rightarrow> (Unhandled err, st\<lparr>winners_file := f\<rparr>)
              | (Inr u, f) \<Rightarrow>
                  log_and_respond e rq accessLog True JNull logs (st\<lparr>winners_file := f\<rparr>))
           else
             log_and_respond e rq accessLog False (accessTime_of (js_get winners lid)) logs st)"

text \<open>Requests served one after the other, each handler finishing before the next starts.\<close>

fun participate_all ::
    "(env \<times> request) list \<Rightarrow> fs \<Rightarrow> participate_result response list \<times> fs" where
  "participate_all [] st = ([], st)"
| "participate_all ((e, rq) # rest) st =
     (let (r, st1) = participate e rq st;
          (rs, st2) = participate_all rest st1
      in (r # rs, st2))"

subsection \<open>The admin views\<close>

definition admin_winners :: "fs \<Rightarrow> (string \<times> winner_record \<times> location lookup) list response" where
  "admin_winners st =
     (let winners = loadData (winners_file st) []
      in Json (map (\<lambda>(lid, w). (lid, w, js_get LOCATIONS lid)) winners))"

definition admin_logs :: "fs \<Rightarrow> (log_entry \<times> location lookup) list response" where
  "admin_logs st =
     (let logs = loadData (logs_file st) [];
          recentLogs = rev (drop (length logs - 100) logs)
      in Json (map (\<lambda>log. (log, js_get LOCATIONS (locationId log))) recentLogs))"

datatype reset_message = EventWasReset

definition reset :: "env \<Rightarrow> fs \<Rightarrow> reset_message response \<times> fs" where
  "reset e st =
     (case saveData (winners_write_ok e) [] (winners_file st) of
        (Inl err, f) \<Rightarrow> (Status 500 ResetFailed, st\<lparr>winners_file := f\<rparr>)
      | (Inr u, f) \<Rightarrow>
          (case saveData (logs_write_ok e) [] (logs_file (st\<lparr>winners_file := f\<rparr>)) of
             (Inl err, g) \<Rightarrow> (Status 500 ResetFailed, st\<lparr>winners_file := f, logs_file := g\<rparr>)
           | (Inr u', g) \<Rightarrow> (Json EventWasReset, st\<lparr>winners_file := f, logs_file := g\<rparr>)))"

record location_stat =
  stat_name :: utf16
  stat_count :: nat
  stat_hasWinner :: bool

record stats =
  totalLocations :: nat
  winnersCount :: nat
  totalParticipants :: nat
  participantsByLocation :: "(string \<times> location_stat) list"

definition admin_stats :: "fs \<Rightarrow> stats response" where
  "admin_stats st =
     (let winners = loadData (winners_file st) [];
          logs = loadData (logs_file st) []
      in Json
           \<lparr>totalLocations = length (map fst LOCATIONS),
            winnersCount = length (map fst winners),
            totalParticipants = length logs,
            participantsByLocation =
              map (\<lambda>(lid, loc).
                     (lid,
                      \<lparr>stat_name = name loc,
                       stat_count = length (filter (\<lambda>log. locationId log = lid) logs),
                       stat_hasWinner = truthy (js_get winners lid)\<rparr>))
                  LOCATIONS\<rparr>)"

section \<open>Handlers that overlap\<close>

text \<open>
  An \<^verbatim>\<open>async\<close> handler gives up control at every \<^verbatim>\<open>await\<close>, and another request may run
  before it continues.  A task is a participate handler between two of its \<^verbatim>\<open>await\<close>s,
  with the local variables it holds; \<open>step\<close> runs it up to the next one, with the file
  operation it waits for.  The handler that found a winner goes from its decision to the
  write of the log without an \<^verbatim>\<open>await\<close>; its decision touches no file, so taking the
  decision and the write of the log as two steps adds no behaviour.
\<close>

datatype task =
    Start request
  | AwaitLogs request winners_doc
  | Loaded request winners_doc logs_doc
  | Decided request access_log bool jsval logs_doc
  | Finished "participate_result response"

fun step :: "env \<Rightarrow> task \<Rightarrow> fs \<Rightarrow> task \<times> fs" where
  "step e (Start rq) st =
     (if \<not> truthy (js_get LOCATIONS (body_locationId rq))
      then (Finished (Status 400 NoSuchLocation), st)
      else (AwaitLogs rq (loadData (winners_file st) []), st))"
| "step e (AwaitLogs rq winners) st =
     (Loaded rq winners (loadData (logs_file st) []), st)"
| "step e (Loaded rq winners logs) st =
     (let lid = body_locationId rq; accessLog = new_access_log e rq
      in if \<not> truthy (js_get winners lid)
         then
           (case saveData (winners_write_ok e)
                   (AList.update lid (with_winner accessLog) winners) (winners_file st) of
              (Inl err, f) \<Rightarrow> (Finished (Unhandled err), st\<lparr>winners_file := f\<rparr>)
            | (Inr u, f) \<Rightarrow> (Decided rq accessLog True JNull logs, st\<lparr>winners_file := f\<rparr>))
         else (Decided rq accessLog False (accessTime_of (js_get winners lid)) logs, st))"
| "step e (Decided rq accessLog isW winnerTime logs) st =
     (case log_and_respond e rq accessLog isW winnerTime logs st of
        (r, st') \<Rightarrow> (Finished r, st'))"
| "step e (Finished r) st = (Finished r, st)"

text \<open>
  A schedule names, turn by turn, the task that runs next.  A turn given to a task that
  does not exist is skipped.
\<close>

fun run :: "nat list \<Rightarrow> (env \<times> task) list \<Rightarrow> fs \<Rightarrow> (env \<times> task) list \<times> fs" where
  "run [] ts st = (ts, st)"
| "run (i # sched) ts st =
     (if i < length ts
      then let (t', st') = step (fst (ts ! i)) (snd (ts ! i)) st
           in run sched (ts[i := (fst (ts ! i), t')]) st'
      else run sched ts st)"

text \<open>Whether a response tells its caller that it won, and the response of a task once it
  has one.\<close>

definition won :: "participate_result response \<Rightarrow> bool" where
  "won r = (case r of Json b \<Rightarrow> res_isWinner b | Status n m \<Rightarrow> False | Unhandled err \<Rightarrow> False)"

fun outcome :: "task \<Rightarrow> participate_result response option" where
  "outcome (Finished r) = Some r"
| "outcome (Start rq) = None"
| "outcome (AwaitLogs rq w) = None"
| "outcome (Loaded rq w l) = None"
| "outcome (Decided rq a b t l) = None"

section \<open>Runs used in the statements\<close>

text \<open>The store before anything was written, a browser's visit, and a moment at which
  both writes succeed.\<close>

definition empty_fs :: fs where
  "empty_fs = \<lparr>winners_file = None, logs_file = None\<rparr>"

definition visit :: "string \<Rightarrow> string \<Rightarrow> request" where
  "visit lid t =
     \<lparr>body_locationId = lid, body_accessTime = JStr t, body_userAgent = JStr ''Mozilla/5.0'',
      req_ip = JStr ''::1'', remoteAddress = JStr ''::1''\<rparr>"

definition at :: "int \<Rightarrow> string \<Rightarrow> env" where
  "at ms stamp = \<lparr>now_ms = ms, now_iso = stamp, winners_write_ok = True, logs_write_ok = True\<rparr>"

text \<open>A moment at which both writes fail.\<close>

definition at_failing :: "int \<Rightarrow> string \<Rightarrow> env" where
  "at_failing ms stamp =
     \<lparr>now_ms = ms, now_iso = stamp, winners_write_ok = False, logs_write_ok = False\<rparr>"

text \<open>The first visit to gangnam, and the store it leaves behind.\<close>

definition first_env :: env where
  "first_env = at 1700000000000 ''2023-11-14T22:13:20.000Z''"

definition first_visit :: request where
  "first_visit = visit ''gangnam'' ''2023-11-14T22:13:19.900Z''"

definition after_first_visit :: fs where
  "after_first_visit = snd (participate first_env first_visit empty_fs)"

text \<open>A visit to hongdae that is in flight together with the first visit to gangnam.\<close>

definition hongdae_env :: env where
  "hongdae_env = at 1700000000001 ''2023-11-14T22:13:20.001Z''"

definition hongdae_visit :: request where
  "hongdae_visit = visit ''hongdae'' ''2023-11-14T22:13:19.950Z''"

text \<open>A visit to gangnam five seconds later.\<close>

definition later_env :: env where
  "later_env = at 1700000005000 ''2023-11-14T22:13:25.000Z''"

definition later_visit :: request where
  "later_visit = visit ''gangnam'' ''2023-11-14T22:13:24.900Z''"

text \<open>
  Three requests: the first visit to gangnam, the visit to hongdae, and the later visit to
  gangnam.  Which of them runs when is the schedule's choice.
\<close>

definition three_requests :: "(env \<times> task) list" where
  "three_requests =
     [(first_env, Start first_visit), (hongdae_env, Start hongdae_visit),
      (later_env, Start later_visit)]"

text \<open>The keys of a winners file, each with the identifier of its record.\<close>

definition winner_ids :: "fs \<Rightarrow> (string \<times> int) list" where
  "winner_ids st = map (\<lambda>(lid, w). (lid, id_field w)) (loadData (winners_file st) [])"

text \<open>The log entries that a sequence of visits creates, in arrival order, none dropped.\<close>

fun attempts :: "(env \<times> request) list \<Rightarrow> fs \<Rightarrow> log_entry list" where
  "attempts [] st = []"
| "attempts ((e, rq) # rest) st =
     with_isWinner (new_access_log e rq) (won (fst (participate e rq st)))
       # attempts rest (snd (participate e rq st))"

text \<open>The most recent 1000 elements of a list.\<close>

definition last_1000 :: "'a list \<Rightarrow> 'a list" where
  "last_1000 xs = drop (length xs - 1000) xs"

text \<open>The identifiers of the catalog: \<^verbatim>\<open>Object.keys(LOCATIONS)\<close>.\<close>

definition known :: "string \<Rightarrow> bool" where
  "known lid = (lid \<in> set (map fst LOCATIONS))"

section \<open>Basic facts about the store\<close>

lemma saveData_eq: "saveData ok d f = (Inr (), if ok then Some d else f)"
  by (simp add: saveData_def writeFile_def)

lemma loadData_simps [simp]: "loadData None d = d" "loadData (Some x) d = x"
  by (simp_all add: loadData_def readFile_def)

lemma log_and_respond_eq:
  "log_and_respond e rq a isW wt logs st =
     (Json (participate_body rq isW wt),
      st\<lparr>logs_file :=
            (if logs_write_ok e then Some (push_log logs (with_isWinner a isW))
             else logs_file st)\<rparr>)"
  by (simp add: log_and_respond_def saveData_eq Let_def)

text \<open>The handler with the dead error branches removed.\<close>

lemma participate_eq:
  "participate e rq st =
     (let lid = body_locationId rq;
          winners = loadData (winners_file st) [];
          logs = loadData (logs_file st) [];
          a = new_access_log e rq
      in if \<not> truthy (js_get LOCATIONS lid) then (Status 400 NoSuchLocation, st)
         else if \<not> truthy (js_get winners lid)
         then (Json (participate_body rq True JNull),
               st\<lparr>winners_file :=
                     (if winners_write_ok e
                      then Some (AList.update lid (with_winner a) winners)
                      else winners_file st),
                  logs_file :=
                     (if logs_write_ok e then Some (push_log logs (with_isWinner a True))
                      else logs_file st)\<rparr>)
         else (Json (participate_body rq False (accessTime_of (js_get winners lid))),
               st\<lparr>logs_file :=
                     (if logs_write_ok e then Some (push_log logs (with_isWinner a False))
                      else logs_file st)\<rparr>))"
  by (simp add: participate_def log_and_respond_eq saveData_eq Let_def)

section \<open>Reset\<close>

text \<open>
  C10.  The \<^verbatim>\<open>catch\<close> branch of POST /api/admin/reset cannot be reached: \<^verbatim>\<open>saveData\<close>
  swallows every write error, so the handler answers with the confirmation message
  whatever the two writes did.  When both writes fail, the answer is the same and the
  files are exactly what they were before.
\<close>

theorem reset_always_confirms:
  "fst (reset e st) = Json EventWasReset \<and>
   snd (reset (e\<lparr>winners_write_ok := False, logs_write_ok := False\<rparr>) st) = st"
  by (simp add: reset_def saveData_eq)

section \<open>Catalog keys and inherited names\<close>

lemma known_iff: "known lid \<longleftrightarrow> lid \<in> {''gangnam'', ''hongdae'', ''myeongdong'', ''itaewon'', ''jamsil''}"
  by (simp add: known_def LOCATIONS_def)

lemma known_not_inherited: "known lid \<Longrightarrow> lid \<notin> set Object_prototype"
  by (auto simp add: known_iff Object_prototype_def)

lemma known_lookup: "known lid \<Longrightarrow> \<exists>loc. js_get LOCATIONS lid = Own loc"
  by (auto simp add: known_iff js_get_def LOCATIONS_def)

lemma known_truthy: "known lid \<Longrightarrow> truthy (js_get LOCATIONS lid)"
  using known_lookup by fastforce

lemma truthy_own_iff:
  "lid \<notin> set Object_prototype \<Longrightarrow> truthy (js_get obj lid) \<longleftrightarrow> map_of obj lid \<noteq> None"
  by (auto simp add: js_get_def split: option.splits)

lemma js_get_Own: "map_of obj lid = Some v \<Longrightarrow> js_get obj lid = Own v"
  by (simp add: js_get_def)

lemma push_log_last_1000: "push_log logs x = last_1000 (logs @ [x])"
  by (simp add: push_log_def last_1000_def Let_def)

lemma last_1000_append: "last_1000 (last_1000 xs @ ys) = last_1000 (xs @ ys)"
  by (cases "length xs \<le> 1000") (simp_all add: last_1000_def add.commute)

lemma length_last_1000: "length (last_1000 xs) = min 1000 (length xs)"
  by (simp add: last_1000_def)

section \<open>Two first visits at once\<close>

text \<open>
  C1.  Exactly one of the calls for a location may be told \<^verbatim>\<open>isWinner = true\<close>.  Two
  handlers for gangnam that take turns at their \<^verbatim>\<open>await\<close>s both read the winners file
  before either writes it, and both answer \<^verbatim>\<open>isWinner = true\<close>.
\<close>

theorem overlapping_first_visits_both_win:
  "map (map_option won \<circ> outcome \<circ> snd)
     (fst (run [0, 1, 0, 1, 0, 1, 0, 1]
            [(first_env, Start first_visit),
             (at 1700000000001 ''2023-11-14T22:13:20.001Z'',
                Start (visit ''gangnam'' ''2023-11-14T22:13:19.950Z''))]
            empty_fs))
   = [Some True, Some True] \<and>
   map (\<lambda>(lid, w). (lid, id_field w))
     (loadData (winners_file (snd (run [0, 1, 0, 1, 0, 1, 0, 1]
            [(first_env, Start first_visit),
             (at 1700000000001 ''2023-11-14T22:13:20.001Z'',
                Start (visit ''gangnam'' ''2023-11-14T22:13:19.950Z''))]
            empty_fs))) [])
   = [(''gangnam'', 1700000000001)]"
  by (simp add: first_env_def first_visit_def at_def visit_def empty_fs_def js_get_def
        LOCATIONS_def Object_prototype_def saveData_eq log_and_respond_eq won_def
        participate_body_def with_winner_def new_access_log_def Let_def)

text \<open>A task that is given every turn is the handler run from start to end.\<close>

lemma solo_run:
  "run [0, 0, 0, 0] [(e, Start rq)] st =
     ([(e, Finished (fst (participate e rq st)))], snd (participate e rq st))"
  by (simp add: participate_eq log_and_respond_eq saveData_eq Let_def)

section \<open>A stored record and a stale write\<close>

text \<open>
  C2.  A winner record, once stored, may not be overwritten or deleted by an adjudication,
  and every later adjudication for its location must answer \<^verbatim>\<open>isWinner = false\<close>.  The
  handler writes back the whole document it read.  The visits to gangnam and to hongdae
  both read the empty document; gangnam's record is stored; then hongdae's handler writes
  its own copy, which holds hongdae alone, and gangnam's record is gone.  The later visit
  to gangnam, served after both have finished, is told it won, and its record takes the
  place of the first one.
\<close>

theorem stale_write_deletes_stored_record:
  "winner_ids (snd (run [0, 1, 0, 1, 0] three_requests empty_fs)) =
     [(''gangnam'', 1700000000000)] \<and>
   winner_ids (snd (run [0, 1, 0, 1, 0, 1] three_requests empty_fs)) =
     [(''hongdae'', 1700000000001)] \<and>
   map (map_option won \<circ> outcome \<circ> snd)
     (fst (run [0, 1, 0, 1, 0, 1, 0, 1] three_requests empty_fs)) =
     [Some True, Some True, None] \<and>
   map (map_option won \<circ> outcome \<circ> snd)
     (fst (run [0, 1, 0, 1, 0, 1, 0, 1, 2, 2, 2, 2] three_requests empty_fs)) =
     [Some True, Some True, Some True] \<and>
   winner_ids (snd (run [0, 1, 0, 1, 0, 1, 0, 1, 2, 2, 2, 2] three_requests empty_fs)) =
     [(''hongdae'', 1700000000001), (''gangnam'', 1700000005000)]"
  by (simp add: three_requests_def winner_ids_def first_env_def first_visit_def
        hongdae_env_def hongdae_visit_def later_env_def later_visit_def at_def visit_def
        empty_fs_def js_get_def LOCATIONS_def Object_prototype_def saveData_eq
        log_and_respond_eq won_def participate_body_def with_winner_def new_access_log_def
        Let_def)

section \<open>Unknown identifiers\<close>

text \<open>An identifier that is neither a catalog key nor inherited is rejected, and the
  store stays as it is.\<close>

lemma participate_unknown:
  "js_get LOCATIONS (body_locationId rq) = Missing \<Longrightarrow>
     participate e rq st = (Status 400 NoSuchLocation, st)"
  by (simp add: participate_def)

lemma get_location_unknown:
  "js_get LOCATIONS lid = Missing \<Longrightarrow> get_location lid st = Status 404 NoSuchLocation"
  by (simp add: get_location_def)

text \<open>
  C5.  An identifier outside the catalog must be rejected (400 by participate, 404 by the
  location query) with the winners and the log untouched.  The guard
  \<^verbatim>\<open>!LOCATIONS[locationId]\<close> lets the names of \<^verbatim>\<open>Object.prototype\<close> through:
  \<^verbatim>\<open>constructor\<close> is not a catalog key, yet the participate handler answers with a
  result body (its \<^verbatim>\<open>locationName\<close> is the text Object, the name of the built-in function)
  and appends an entry to the log, and the query answers with a view that even reports a
  winner.
\<close>

theorem inherited_key_passes_the_guard:
  "js_get LOCATIONS ''constructor'' \<noteq> Missing \<and> \<not> known ''constructor'' \<and>
   participate (at 1700000000000 ''2023-11-14T22:13:20.000Z'')
       (visit ''constructor'' ''2023-11-14T22:13:19.900Z'') empty_fs =
     (Json \<lparr>res_isWinner = False, res_locationName = Some [79, 98, 106, 101, 99, 116],
            res_prize = None,
            res_emoji = None, res_accessTime = JStr ''2023-11-14T22:13:19.900Z'',
            res_winnerTime = JUndefined\<rparr>,
      \<lparr>winners_file = None,
       logs_file = Some [\<lparr>id_field = 1700000000000, locationId = ''constructor'',
                          accessTime = JStr ''2023-11-14T22:13:19.900Z'', ip = JStr ''::1'',
                          userAgent = JStr ''Mozilla/5.0'',
                          timestamp = ''2023-11-14T22:13:20.000Z'', isWinner = False\<rparr>]\<rparr>) \<and>
   get_location ''constructor'' empty_fs =
     Json \<lparr>view_name = None, view_prize = None, view_emoji = None,
           view_locationId = ''constructor'', view_hasWinner = True,
           view_winnerTime = JUndefined\<rparr>"
  by (simp add: participate_eq get_location_def at_def visit_def empty_fs_def js_get_def
        LOCATIONS_def Object_prototype_def participate_body_def new_access_log_def
        with_isWinner_def push_log_def clientIP_def known_def builtin_name_def Let_def)

section \<open>Failing writes\<close>

text \<open>
  C3, as the specification states it, fails: with both writes failing, the first visit to
  gangnam is answered with the success body \<^verbatim>\<open>isWinner = true\<close>, and nothing was stored.
\<close>

theorem failed_writes_still_answer_success_counterexample:
  "participate (at_failing 1700000000000 ''2023-11-14T22:13:20.000Z'')
      (visit ''gangnam'' ''2023-11-14T22:13:19.900Z'') empty_fs =
     (Json \<lparr>res_isWinner = True,
            res_locationName = Some [44053, 45224, 50669],
            res_prize = Some [49828, 53440, 48261, 49828, 32, 50500, 47700, 47532, 52852, 45432],
            res_emoji = Some [9749],
            res_accessTime = JStr ''2023-11-14T22:13:19.900Z'',
            res_winnerTime = JNull\<rparr>,
      empty_fs)"
  by (simp add: participate_eq visit_def empty_fs_def js_get_def at_failing_def
        LOCATIONS_def Object_prototype_def participate_body_def Let_def)

text \<open>
  C3, amended.  A failing write is caught inside \<^verbatim>\<open>saveData\<close> and goes no further: for a
  known location the caller receives a success body whatever the writes did, the same
  body as when both writes succeed.
\<close>

theorem write_failure_is_swallowed:
  assumes "known (body_locationId rq)"
  shows "\<exists>b. fst (participate e rq st) = Json b \<and>
             fst (participate (e\<lparr>winners_write_ok := True, logs_write_ok := True\<rparr>) rq st) = Json b"
  using known_truthy [OF assms] by (simp add: participate_eq Let_def)

theorem write_failure_is_swallowed_witness:
  "known (body_locationId (visit ''gangnam'' ''2023-11-14T22:13:19.900Z'')) \<and>
   (\<exists>b. fst (participate (at_failing 1700000000000 ''2023-11-14T22:13:20.000Z'')
                (visit ''gangnam'' ''2023-11-14T22:13:19.900Z'') empty_fs) = Json b \<and>
        fst (participate
               ((at_failing 1700000000000 ''2023-11-14T22:13:20.000Z'')
                  \<lparr>winners_write_ok := True, logs_write_ok := True\<rparr>)
               (visit ''gangnam'' ''2023-11-14T22:13:19.900Z'') empty_fs) = Json b)"
proof -
  have k: "known (body_locationId (visit ''gangnam'' ''2023-11-14T22:13:19.900Z''))"
    by (simp add: known_iff visit_def)
  from k write_failure_is_swallowed [OF k] show ?thesis by (rule conjI)
qed

section \<open>Visits served in turn\<close>

lemma participate_all_Cons [simp]:
  "fst (participate_all ((e, rq) # rest) st) =
     fst (participate e rq st) # fst (participate_all rest (snd (participate e rq st)))"
  "snd (participate_all ((e, rq) # rest) st) =
     snd (participate_all rest (snd (participate e rq st)))"
  by (simp_all add: split_beta)

declare participate_all.simps(2) [simp del]

lemma length_participate_all [simp]: "length (fst (participate_all vs st)) = length vs"
  by (induction vs arbitrary: st) auto

lemma length_attempts [simp]: "length (attempts vs st) = length vs"
  by (induction vs arbitrary: st) auto

lemma participate_keeps_record:
  assumes "winners_file st = Some w" and "map_of w loc = Some r"
  shows "\<exists>w'. winners_file (snd (participate e rq st)) = Some w' \<and>
              map_of w' loc = Some r \<and> (body_locationId rq = loc \<longrightarrow> w' = w)"
  using assms
  by (auto simp add: participate_eq Let_def js_get_Own update_conv')

lemma participate_keeps_distinct:
  assumes "distinct (map fst (loadData (winners_file st) []))"
  shows "distinct (map fst (loadData (winners_file (snd (participate e rq st))) []))"
  using assms
  by (auto simp add: participate_eq Let_def distinct_update)

lemma participate_all_keeps_distinct:
  assumes "distinct (map fst (loadData (winners_file st) []))"
  shows "distinct (map fst (loadData (winners_file (snd (participate_all vs st))) []))"
  using assms
proof (induction vs arbitrary: st)
  case Nil
  then show ?case by simp
next
  case (Cons v vs)
  obtain e rq where v: "v = (e, rq)" by (cases v)
  from Cons.IH [OF participate_keeps_distinct [OF Cons.prems, of e rq]]
  show ?case by (simp add: v)
qed

lemma participate_loses:
  assumes "winners_file st = Some w" and "map_of w (body_locationId rq) = Some r"
  shows "\<not> won (fst (participate e rq st))"
  using assms
  by (simp add: participate_eq Let_def js_get_Own won_def participate_body_def)

lemma participate_all_keeps_record:
  assumes "winners_file st = Some w" and "map_of w loc = Some r"
  shows "\<exists>w'. winners_file (snd (participate_all vs st)) = Some w' \<and> map_of w' loc = Some r"
  using assms
proof (induction vs arbitrary: st w)
  case Nil
  then show ?case by simp
next
  case (Cons v vs)
  obtain e rq where v: "v = (e, rq)" by (cases v)
  from participate_keeps_record [OF Cons.prems, of e rq]
  obtain w1 where w1: "winners_file (snd (participate e rq st)) = Some w1"
      "map_of w1 loc = Some r" by blast
  from Cons.IH [OF w1] show ?case by (simp add: v)
qed

lemma participate_all_loses:
  assumes "winners_file st = Some w" and "map_of w loc = Some r"
    and "i < length vs" and "body_locationId (snd (vs ! i)) = loc"
  shows "\<not> won (fst (participate_all vs st) ! i)"
  using assms
proof (induction vs arbitrary: st w i)
  case Nil
  then show ?case by simp
next
  case (Cons v vs)
  obtain e rq where v: "v = (e, rq)" by (cases v)
  from participate_keeps_record [OF Cons.prems(1,2), of e rq]
  obtain w1 where w1: "winners_file (snd (participate e rq st)) = Some w1"
      "map_of w1 loc = Some r" by blast
  show ?case
  proof (cases i)
    case 0
    with Cons.prems v have "map_of w (body_locationId rq) = Some r" by simp
    from participate_loses [OF Cons.prems(1) this] show ?thesis by (simp add: v 0)
  next
    case (Suc j)
    with Cons.prems have "j < length vs" "body_locationId (snd (vs ! j)) = loc" by simp_all
    from Cons.IH [OF w1 this] show ?thesis by (simp add: v Suc)
  qed
qed

lemma after_first_visit_winners:
  "winners_file after_first_visit = Some [(''gangnam'', with_winner (new_access_log first_env first_visit))]"
  by (simp add: after_first_visit_def participate_eq first_env_def first_visit_def at_def
        visit_def empty_fs_def js_get_def LOCATIONS_def Object_prototype_def Let_def)

text \<open>
  Handlers served in turn keep a stored record: after any sequence of adjudications,
  whatever their write outcomes, the document still maps the location to the same record,
  with distinct keys; each of them that names the location is told it did not win; an
  adjudication for the location writes nothing to the winners document and, when the
  location is in the catalog, answers \<^verbatim>\<open>isWinner = false\<close> with the record's
  \<^verbatim>\<open>accessTime\<close>.  Reset empties the document.
\<close>

lemma served_in_turn_record_is_kept:
  assumes "winners_file st = Some w" and "distinct (map fst w)" and "map_of w loc = Some r"
  shows "(\<exists>w'. winners_file (snd (participate_all vs st)) = Some w' \<and>
               distinct (map fst w') \<and> map_of w' loc = Some r) \<and>
         (\<forall>i < length vs. body_locationId (snd (vs ! i)) = loc \<longrightarrow>
               \<not> won (fst (participate_all vs st) ! i)) \<and>
         (body_locationId rq = loc \<longrightarrow>
               winners_file (snd (participate e rq st)) = Some w) \<and>
         (body_locationId rq = loc \<and> known loc \<longrightarrow>
               fst (participate e rq st) = Json (participate_body rq False (accessTime r))) \<and>
         winners_file (snd (reset (at ms stamp) st)) = Some []"
proof (intro conjI allI impI)
  from participate_all_keeps_record [OF assms(1,3), of vs]
  obtain w' where w': "winners_file (snd (participate_all vs st)) = Some w'"
      "map_of w' loc = Some r" by blast
  from assms(1,2) have "distinct (map fst (loadData (winners_file st) []))" by simp
  from participate_all_keeps_distinct [OF this, of vs] w'(1)
  have "distinct (map fst w')" by simp
  with w' show "\<exists>w'. winners_file (snd (participate_all vs st)) = Some w' \<and>
               distinct (map fst w') \<and> map_of w' loc = Some r" by blast
next
  fix i assume "i < length vs" "body_locationId (snd (vs ! i)) = loc"
  then show "\<not> won (fst (participate_all vs st) ! i)"
    by (rule participate_all_loses [OF assms(1,3)])
next
  assume "body_locationId rq = loc"
  with participate_keeps_record [OF assms(1,3), of e rq]
  show "winners_file (snd (participate e rq st)) = Some w" by auto
next
  assume a: "body_locationId rq = loc \<and> known loc"
  then have "truthy (js_get LOCATIONS (body_locationId rq))" by (simp add: known_truthy)
  with a assms(1,3)
  show "fst (participate e rq st) = Json (participate_body rq False (accessTime r))"
    by (simp add: participate_eq Let_def js_get_Own)
next
  show "winners_file (snd (reset (at ms stamp) st)) = Some []"
    by (simp add: reset_def saveData_eq at_def)
qed

section \<open>The winner time shown to later visitors\<close>

text \<open>
  C4, as the specification states it, fails.  The first visit to gangnam reported the
  client time 22:13:19.900 and was stamped 22:13:20.000 by the server; the next visitor
  is shown 22:13:19.900 as \<^verbatim>\<open>winnerTime\<close>, the time the winner's browser reported.
\<close>

theorem winnerTime_is_not_the_server_timestamp_counterexample:
  "map_option res_winnerTime
      (case fst (participate later_env later_visit after_first_visit) of
         Json b \<Rightarrow> Some b | Status n m \<Rightarrow> None | Unhandled err \<Rightarrow> None) =
     Some (JStr ''2023-11-14T22:13:19.900Z'') \<and>
   map_option timestamp (map_of (loadData (winners_file after_first_visit) []) ''gangnam'') =
     Some ''2023-11-14T22:13:20.000Z'' \<and>
   map_option accessTime (map_of (loadData (winners_file after_first_visit) []) ''gangnam'') =
     Some (JStr ''2023-11-14T22:13:19.900Z'')"
  by (simp add: after_first_visit_winners with_winner_def new_access_log_def participate_eq
        first_env_def first_visit_def later_visit_def at_def visit_def js_get_def LOCATIONS_def
        Object_prototype_def participate_body_def Let_def)

text \<open>
  C4, amended.  For every adjudication of a location that already has a winner,
  \<^verbatim>\<open>winnerTime\<close> is the \<^verbatim>\<open>accessTime\<close> of the stored winner record, that is the time the
  winning request itself reported: a first visit that is stored, any visits served after
  it, and then a visit to the same location that is answered with \<^verbatim>\<open>isWinner = false\<close>
  and the first visit's \<^verbatim>\<open>accessTime\<close>.
\<close>

theorem winnerTime_is_client_reported:
  assumes "known lid"
    and "map_of (loadData (winners_file st) []) lid = None"
    and "winners_write_ok e1"
    and "body_locationId rq1 = lid" and "body_locationId rq2 = lid"
  shows "fst (participate e2 rq2 (snd (participate_all between (snd (participate e1 rq1 st))))) =
           Json (participate_body rq2 False (body_accessTime rq1))"
proof -
  let ?r = "with_winner (new_access_log e1 rq1)"
  let ?st1 = "snd (participate e1 rq1 st)"
  have t: "truthy (js_get LOCATIONS lid)" by (rule known_truthy [OF assms(1)])
  have n: "\<not> truthy (js_get (loadData (winners_file st) []) lid)"
    by (simp add: truthy_own_iff [OF known_not_inherited [OF assms(1)]] assms(2))
  have "winners_file ?st1 = Some (AList.update lid ?r (loadData (winners_file st) []))"
    using t n assms(3,4) by (simp add: participate_eq Let_def)
  moreover have "map_of (AList.update lid ?r (loadData (winners_file st) [])) lid = Some ?r"
    by (simp add: update_conv')
  ultimately obtain w' where w': "winners_file (snd (participate_all between ?st1)) = Some w'"
      "map_of w' lid = Some ?r"
    using participate_all_keeps_record by blast
  have "accessTime ?r = body_accessTime rq1"
    by (simp add: with_winner_def new_access_log_def)
  with w' t assms(5) show ?thesis
    by (simp add: participate_eq Let_def js_get_Own)
qed


theorem winnerTime_is_client_reported_witness:
  "known ''gangnam'' \<and>
   map_of (loadData (winners_file empty_fs) []) ''gangnam'' = None \<and>
   winners_write_ok first_env \<and>
   body_locationId first_visit = ''gangnam'' \<and> body_locationId later_visit = ''gangnam'' \<and>
   fst (participate later_env later_visit
          (snd (participate_all [(later_env, visit ''hongdae'' ''2023-11-14T22:13:21.000Z'')]
                  (snd (participate first_env first_visit empty_fs))))) =
     Json (participate_body later_visit False (body_accessTime first_visit))"
proof -
  have h1: "known ''gangnam''" by (simp add: known_iff)
  have h2: "map_of (loadData (winners_file empty_fs) []) ''gangnam'' = None"
    by (simp add: empty_fs_def)
  have h3: "winners_write_ok first_env" by (simp add: first_env_def at_def)
  have h4: "body_locationId first_visit = ''gangnam''" by (simp add: first_visit_def visit_def)
  have h5: "body_locationId later_visit = ''gangnam''" by (simp add: later_visit_def visit_def)
  from winnerTime_is_client_reported [OF h1 h2 h3 h4 h5] h1 h2 h3 h4 h5
  show ?thesis by blast
qed

section \<open>The visit log\<close>

lemma participate_log:
  assumes "known (body_locationId rq)" and "logs_write_ok e"
  shows "logs_file (snd (participate e rq st)) =
           Some (last_1000 (loadData (logs_file st) [] @
                   [with_isWinner (new_access_log e rq) (won (fst (participate e rq st)))]))"
  using known_truthy [OF assms(1)] assms(2)
  by (simp add: participate_eq Let_def push_log_last_1000 won_def participate_body_def)

lemma logs_after_all:
  assumes "\<forall>(e, rq) \<in> set vs. known (body_locationId rq) \<and> logs_write_ok e" and "vs \<noteq> []"
  shows "logs_file (snd (participate_all vs st)) =
           Some (last_1000 (loadData (logs_file st) [] @ attempts vs st))"
  using assms
proof (induction vs arbitrary: st)
  case Nil
  then show ?case by simp
next
  case (Cons v vs)
  obtain e rq where v: "v = (e, rq)" by (cases v)
  from Cons.prems(1) v have ok: "known (body_locationId rq)" "logs_write_ok e" by simp_all
  note step = participate_log [OF ok, of st]
  show ?case
  proof (cases "vs = []")
    case True
    with step show ?thesis by (simp add: v)
  next
    case False
    from Cons.prems(1) have "\<forall>(e, rq) \<in> set vs. known (body_locationId rq) \<and> logs_write_ok e"
      by simp
    from Cons.IH [OF this False, of "snd (participate e rq st)"] step
    show ?thesis by (simp add: v last_1000_append)
  qed
qed

text \<open>
  C6.  Visits to catalog locations whose log writes succeed leave in the log the last
  1000 of the entries before them followed by their own entries, in arrival order.  After
  1005 such visits the log has exactly 1000 entries, and from an empty log these are the
  attempts without the 5 oldest.
\<close>

theorem log_keeps_the_last_1000:
  assumes "\<forall>(e, rq) \<in> set vs. known (body_locationId rq) \<and> logs_write_ok e" and "vs \<noteq> []"
  shows "\<exists>l. logs_file (snd (participate_all vs st)) = Some l \<and>
             l = last_1000 (loadData (logs_file st) [] @ attempts vs st) \<and>
             length l = min 1000 (length (loadData (logs_file st) []) + length vs) \<and>
             (length vs = 1005 \<longrightarrow> length l = 1000) \<and>
             (length vs = 1005 \<and> loadData (logs_file st) [] = [] \<longrightarrow>
                l = drop 5 (attempts vs st))"
  using logs_after_all [OF assms, of st]
  by (auto simp add: length_last_1000) (simp add: last_1000_def)

theorem log_keeps_the_last_1000_witness:
  "known (body_locationId first_visit) \<and> logs_write_ok first_env \<and>
   replicate 1005 (first_env, first_visit) \<noteq> [] \<and>
   (\<exists>l. logs_file (snd (participate_all (replicate 1005 (first_env, first_visit)) empty_fs)) = Some l \<and>
        length l = 1000 \<and>
        l = drop 5 (attempts (replicate 1005 (first_env, first_visit)) empty_fs))"
proof -
  have h1: "\<forall>(e, rq) \<in> set (replicate 1005 (first_env, first_visit)).
       known (body_locationId rq) \<and> logs_write_ok e"
    by (simp add: known_iff first_visit_def visit_def first_env_def at_def)
  have h2: "replicate 1005 (first_env, first_visit) \<noteq> []" by simp
  have k: "known (body_locationId first_visit) \<and> logs_write_ok first_env"
    by (simp add: known_iff first_visit_def visit_def first_env_def at_def)
  from log_keeps_the_last_1000 [OF h1 h2, of empty_fs] k h2
  show ?thesis by (simp add: empty_fs_def)
qed

section \<open>Identifiers of attempts\<close>






section \<open>After a reset\<close>

lemma reset_eq:
  "reset e st =
     (Json EventWasReset,
      st\<lparr>winners_file := (if winners_write_ok e then Some [] else winners_file st),
         logs_file := (if logs_write_ok e then Some [] else logs_file st)\<rparr>)"
  by (simp add: reset_def saveData_eq)

text \<open>
  C7.  After a reset whose two writes succeeded, the winners document and the log are
  empty: the admin views of winners and logs return empty collections, and the query of
  every catalog location reports \<^verbatim>\<open>hasWinner = false\<close> with \<^verbatim>\<open>winnerTime\<close> null.
\<close>

theorem reset_clears_everything:
  assumes "winners_write_ok e" and "logs_write_ok e"
  shows "winners_file (snd (reset e st)) = Some [] \<and>
         logs_file (snd (reset e st)) = Some [] \<and>
         admin_winners (snd (reset e st)) = Json [] \<and>
         admin_logs (snd (reset e st)) = Json [] \<and>
         (\<forall>lid. known lid \<longrightarrow>
            (\<exists>v. get_location lid (snd (reset e st)) = Json v \<and>
                 \<not> view_hasWinner v \<and> view_winnerTime v = JNull))"
proof -
  have "truthy (js_get LOCATIONS lid) \<and> \<not> truthy (js_get ([] :: winners_doc) lid)"
    if "known lid" for lid
    using known_truthy [OF that] truthy_own_iff [OF known_not_inherited [OF that], of "[]"]
    by simp
  with assms show ?thesis
    by (simp add: reset_eq admin_winners_def admin_logs_def get_location_def Let_def)
qed

theorem reset_clears_everything_witness:
  "winners_write_ok later_env \<and> logs_write_ok later_env \<and> known ''gangnam'' \<and>
   winners_file after_first_visit \<noteq> Some [] \<and>
   winners_file (snd (reset later_env after_first_visit)) = Some [] \<and>
   logs_file (snd (reset later_env after_first_visit)) = Some [] \<and>
   admin_winners (snd (reset later_env after_first_visit)) = Json [] \<and>
   admin_logs (snd (reset later_env after_first_visit)) = Json [] \<and>
   (\<exists>v. get_location ''gangnam'' (snd (reset later_env after_first_visit)) = Json v \<and>
        \<not> view_hasWinner v \<and> view_winnerTime v = JNull)"
proof -
  have h1: "winners_write_ok later_env" by (simp add: later_env_def at_def)
  have h2: "logs_write_ok later_env" by (simp add: later_env_def at_def)
  have k: "known ''gangnam''" by (simp add: known_iff)
  have b: "winners_file after_first_visit \<noteq> Some []" by (simp add: after_first_visit_winners)
  from reset_clears_everything [OF h1 h2, of after_first_visit] h1 h2 k b
  show ?thesis by blast
qed

section \<open>Statistics\<close>

lemma map_of_map_keyed:
  "map_of (map (\<lambda>(k, v). (k, f k v)) xs) k = map_option (f k) (map_of xs k)"
  by (induction xs) auto

lemma keys_count: "distinct (map fst xs) \<Longrightarrow> card (dom (map_of xs)) = length xs"
  by (simp add: dom_map_of_conv_image_fst distinct_card flip: set_map)

lemma map_of_LOCATIONS_known: "map_of LOCATIONS lid = Some loc \<Longrightarrow> known lid"
  by (auto simp add: known_def dest: map_of_SomeD intro: rev_image_eqI)

text \<open>
  C8.  The stats view reports the number of catalog locations, the number of entries of
  the winners mapping, the length of the log and, for each catalog location in catalog
  order, its name, the number of log entries with its identifier and whether the winners
  mapping has an entry for it.  After the visits (gangnam, t1), (hongdae, t1),
  (gangnam, t2) on an empty store it reports two winners, three participants, a count of
  2 for gangnam and of 1 for hongdae.
\<close>

theorem stats_view:
  assumes "distinct (map fst (loadData (winners_file st) []))"
  shows "(\<exists>s. admin_stats st = Json s \<and>
            totalLocations s = card (dom (map_of LOCATIONS)) \<and>
            winnersCount s = card (dom (map_of (loadData (winners_file st) []))) \<and>
            totalParticipants s = length (loadData (logs_file st) []) \<and>
            map fst (participantsByLocation s) = map fst LOCATIONS \<and>
            (\<forall>lid loc. map_of LOCATIONS lid = Some loc \<longrightarrow>
               map_of (participantsByLocation s) lid =
                 Some \<lparr>stat_name = name loc,
                       stat_count = length (filter (\<lambda>log. locationId log = lid)
                                              (loadData (logs_file st) [])),
                       stat_hasWinner = (lid \<in> dom (map_of (loadData (winners_file st) [])))\<rparr>)) \<and>
         (\<exists>s. admin_stats (snd (participate_all
                    [(at m1 s1, visit ''gangnam'' t1), (at m2 s2, visit ''hongdae'' t1),
                     (at m3 s3, visit ''gangnam'' t2)] empty_fs)) = Json s \<and>
              winnersCount s = 2 \<and> totalParticipants s = 3 \<and>
              map (\<lambda>(lid, x). (lid, stat_count x, stat_hasWinner x)) (participantsByLocation s) =
                [(''gangnam'', 2, True), (''hongdae'', 1, True), (''myeongdong'', 0, False),
                 (''itaewon'', 0, False), (''jamsil'', 0, False)])"
proof (rule conjI)
  have d: "distinct (map fst LOCATIONS)" by (simp add: LOCATIONS_def)
  have hw: "truthy (js_get (loadData (winners_file st) []) lid) \<longleftrightarrow>
              lid \<in> dom (map_of (loadData (winners_file st) []))"
    if "map_of LOCATIONS lid = Some loc" for lid loc
    using truthy_own_iff [OF known_not_inherited [OF map_of_LOCATIONS_known [OF that]]]
    by (simp add: dom_def)
  show "\<exists>s. admin_stats st = Json s \<and>
            totalLocations s = card (dom (map_of LOCATIONS)) \<and>
            winnersCount s = card (dom (map_of (loadData (winners_file st) []))) \<and>
            totalParticipants s = length (loadData (logs_file st) []) \<and>
            map fst (participantsByLocation s) = map fst LOCATIONS \<and>
            (\<forall>lid loc. map_of LOCATIONS lid = Some loc \<longrightarrow>
               map_of (participantsByLocation s) lid =
                 Some \<lparr>stat_name = name loc,
                       stat_count = length (filter (\<lambda>log. locationId log = lid)
                                              (loadData (logs_file st) [])),
                       stat_hasWinner = (lid \<in> dom (map_of (loadData (winners_file st) [])))\<rparr>)"
    using hw
    by (simp add: admin_stats_def Let_def keys_count [OF d] keys_count [OF assms]
          map_of_map_keyed split_beta comp_def)
next
  show "\<exists>s. admin_stats (snd (participate_all
                    [(at m1 s1, visit ''gangnam'' t1), (at m2 s2, visit ''hongdae'' t1),
                     (at m3 s3, visit ''gangnam'' t2)] empty_fs)) = Json s \<and>
              winnersCount s = 2 \<and> totalParticipants s = 3 \<and>
              map (\<lambda>(lid, x). (lid, stat_count x, stat_hasWinner x)) (participantsByLocation s) =
                [(''gangnam'', 2, True), (''hongdae'', 1, True), (''myeongdong'', 0, False),
                 (''itaewon'', 0, False), (''jamsil'', 0, False)]"
    by (simp add: admin_stats_def participate_eq at_def visit_def empty_fs_def js_get_def
          LOCATIONS_def Object_prototype_def push_log_def with_isWinner_def
          new_access_log_def Let_def)
qed


theorem stats_view_witness:
  "distinct (map fst (loadData (winners_file after_first_visit) [])) \<and>
   (\<exists>s. admin_stats after_first_visit = Json s \<and>
        totalLocations s = card (dom (map_of LOCATIONS)) \<and>
        winnersCount s = card (dom (map_of (loadData (winners_file after_first_visit) []))) \<and>
        totalParticipants s = length (loadData (logs_file after_first_visit) []))"
proof -
  have h: "distinct (map fst (loadData (winners_file after_first_visit) []))"
    by (simp add: after_first_visit_winners)
  from stats_view [OF h] h show ?thesis by blast
qed

section \<open>One location, visits served in turn\<close>

text \<open>
  When the visits to a location without a winner are served in turn and the first one's
  record is written, the first is told it won and all the others are told they did not.
\<close>

lemma served_in_turn_one_winner:
  assumes "known lid" and "map_of (loadData (winners_file st) []) lid = None"
    and "winners_write_ok e" and "body_locationId rq = lid"
    and "\<forall>v \<in> set vs. body_locationId (snd v) = lid"
  shows "map won (fst (participate_all ((e, rq) # vs) st)) = True # replicate (length vs) False"
proof -
  let ?r = "with_winner (new_access_log e rq)"
  let ?st1 = "snd (participate e rq st)"
  have t: "truthy (js_get LOCATIONS lid)" by (rule known_truthy [OF assms(1)])
  have n: "\<not> truthy (js_get (loadData (winners_file st) []) lid)"
    by (simp add: truthy_own_iff [OF known_not_inherited [OF assms(1)]] assms(2))
  have first: "won (fst (participate e rq st))"
    using t n assms(4) by (simp add: participate_eq Let_def won_def participate_body_def)
  have f: "winners_file ?st1 = Some (AList.update lid ?r (loadData (winners_file st) []))"
    using t n assms(3,4) by (simp add: participate_eq Let_def)
  have m: "map_of (AList.update lid ?r (loadData (winners_file st) [])) lid = Some ?r"
    by (simp add: update_conv')
  have "map won (fst (participate_all vs ?st1)) = replicate (length vs) False"
  proof (rule nth_equalityI)
    show "length (map won (fst (participate_all vs ?st1))) = length (replicate (length vs) False)"
      by simp
  next
    fix i assume "i < length (map won (fst (participate_all vs ?st1)))"
    then have i: "i < length vs" by simp
    with assms(5) have "body_locationId (snd (vs ! i)) = lid" by simp
    from participate_all_loses [OF f m i this] i
    show "map won (fst (participate_all vs ?st1)) ! i = replicate (length vs) False ! i"
      by simp
  qed
  with first show ?thesis by simp
qed

end
